theory Spec2Isabelle
  imports Main "HOL-Library.AList"
begin

section \<open>Firebase.getAsArray: a synchronized, read-only array\<close>

text \<open>
  The development follows \<^verbatim>\<open>src/firebase-as-array.js\<close>: the class
  \<^verbatim>\<open>ReadOnlySynchronizedArray\<close> with its two parallel arrays \<^verbatim>\<open>ids\<close> and
  \<^verbatim>\<open>list\<close>, the four server event handlers, the write methods that forward to the
  Firebase reference, and the helper \<^verbatim>\<open>applyToBase\<close>. The reference follows
  \<^verbatim>\<open>src/test/lib/MockFirebase.js\<close>, in two steps: first the call as the reference
  receives it (\<^verbatim>\<open>child\<close>, \<^verbatim>\<open>push\<close>, the argument check of \<^verbatim>\<open>update\<close>), then
  what MockFirebase does with the call before it returns.
\<close>

subsection \<open>JavaScript values and the object store\<close>

text \<open>
  Records held in the array are JavaScript values. An object is known by its address, so
  that two references to one object see each other's changes; the store maps an address to
  the object's own enumerable properties, in insertion order.
\<close>

type_synonym key = string
type_synonym addr = nat

datatype jsval =
    JUndefined
  | JNull
  | JBool bool
  | JNum int
  | JStr string
  | JRef addr

type_synonym obj = "(string \<times> jsval) list"
type_synonym store = "addr \<Rightarrow> obj"

datatype js_error = Error string | TypeError string

datatype 'a outcome = Return 'a | Throw js_error

text \<open>\<^verbatim>\<open>typeof(x) === 'object' && x !== null\<close>\<close>

fun isObject :: "jsval \<Rightarrow> bool" where
  "isObject (JRef a) = True"
| "isObject v = False"

text \<open>
  \<^verbatim>\<open>x.hasOwnProperty(key)\<close> is a property lookup followed by a call. An object without
  an own field of that name finds the method of \<^verbatim>\<open>Object.prototype\<close>; an own field
  named \<^verbatim>\<open>hasOwnProperty\<close> shadows it, its value is no function, and the call throws.
\<close>

definition hasOwnProperty :: "obj \<Rightarrow> string \<Rightarrow> bool outcome" where
  "hasOwnProperty ob k =
     (case map_of ob ''hasOwnProperty'' of
        None \<Rightarrow> Return (map_of ob k \<noteq> None)
      | Some f \<Rightarrow> Throw (TypeError ''hasOwnProperty is not a function''))"

definition get_prop :: "obj \<Rightarrow> string \<Rightarrow> jsval" where
  "get_prop ob k = (case map_of ob k of None \<Rightarrow> JUndefined | Some v \<Rightarrow> v)"

definition own_keys :: "obj \<Rightarrow> string list" where
  "own_keys ob = remdups (map fst ob)"

subsection \<open>Array primitives\<close>

text \<open>\<^verbatim>\<open>Array.prototype.indexOf\<close>: the first index holding the element, or -1.\<close>

fun indexOf :: "'a list \<Rightarrow> 'a \<Rightarrow> int" where
  "indexOf [] x = - 1"
| "indexOf (y # ys) x =
     (if y = x then 0 else (let i = indexOf ys x in if i = - 1 then - 1 else i + 1))"

text \<open>
  \<^verbatim>\<open>Array.prototype.splice(start, deleteCount, ...items)\<close>: a negative start counts
  from the end, a start beyond the end is the end.
\<close>

definition splice_start :: "int \<Rightarrow> nat \<Rightarrow> nat" where
  "splice_start start len =
     (if start < 0 then nat (max (int len + start) 0) else min (nat start) len)"

definition splice :: "'a list \<Rightarrow> int \<Rightarrow> nat \<Rightarrow> 'a list \<Rightarrow> 'a list" where
  "splice xs start deleteCount new_items =
     (let s = splice_start start (length xs)
      in take s xs @ new_items @ drop (s + deleteCount) xs)"

text \<open>Reading \<^verbatim>\<open>xs[i]\<close>: \<^verbatim>\<open>undefined\<close> outside the array.\<close>

definition at_index :: "jsval list \<Rightarrow> int \<Rightarrow> jsval" where
  "at_index xs i = (if 0 \<le> i \<and> i < int (length xs) then xs ! nat i else JUndefined)"

definition set_index :: "jsval list \<Rightarrow> int \<Rightarrow> jsval \<Rightarrow> jsval list" where
  "set_index xs i v =
     (if 0 \<le> i \<and> i < int (length xs) then xs[nat i := v]
      else if 0 \<le> i then xs @ replicate (nat i - length xs) JUndefined @ [v]
      else xs)"

subsection \<open>The synchronized array and its reference\<close>

datatype event_kind = child_added | child_removed | child_changed | child_moved | error

text \<open>One invocation of the event callback: \<^verbatim>\<open>(eventType, recordId, data)\<close>.\<close>

type_synonym notification = "event_kind \<times> jsval \<times> jsval"

text \<open>
  The completion callback handed to the reference is \<^verbatim>\<open>this._handleErrors.bind(t, key)\<close>,
  where \<^verbatim>\<open>t\<close> is the array object or \<^verbatim>\<open>null\<close>.
\<close>

datatype this_binding = BoundThis | BoundNull

datatype completion = HandleErrors this_binding key

datatype write_op =
    SetOp jsval
  | UpdateOp jsval
  | SetPriorityOp jsval
  | RemoveOp

text \<open>A write received by the child reference of a key, with its completion callback if any.\<close>

datatype ref_write = Write key write_op "completion option"

datatype api_method = M_keyFor | M_indexOf | M_add | M_remove | M_set | M_update | M_move

text \<open>
  The Firebase reference \<^verbatim>\<open>this.ref\<close>, as far as the array uses it: its path, the
  counter behind \<^verbatim>\<open>push\<close>, the names of the child references created so far and the writes
  its child references have received.
\<close>

record firebase =
  currentPath :: string
  push_counter :: nat
  children :: "key list"
  ops :: "ref_write list"

text \<open>
  The fields \<^verbatim>\<open>ids\<close>, \<^verbatim>\<open>list\<close>, \<^verbatim>\<open>ref\<close> and \<^verbatim>\<open>eventCallback\<close> are those of
  \<^verbatim>\<open>ReadOnlySynchronizedArray\<close> (of the callback only whether one was supplied);
  \<open>props\<close> holds the functions \<^verbatim>\<open>_initList\<close> attaches to the list and \<open>listeners\<close>
  the event kinds for which \<^verbatim>\<open>_initListeners\<close> registered a handler of this array with
  \<^verbatim>\<open>ref.on\<close>; \<open>calls\<close> records the invocations of the event callback and \<open>console\<close>
  what was passed to \<^verbatim>\<open>console.error\<close>.
\<close>

record sync_array =
  ids :: "key list"
  list_arr :: "jsval list"
  ref :: firebase
  eventCallback :: bool
  props :: "(string \<times> api_method) list"
  listeners :: "event_kind list"
  store :: store
  calls :: "notification list"
  console :: "js_error list"

datatype snapshot = Snap (name: key) (val: jsval)

subsection \<open>The reference\<close>

text \<open>
  A key is one path segment. \<^verbatim>\<open>child\<close> rejects an empty path and creates the child
  reference on first use.
\<close>

definition child :: "key \<Rightarrow> firebase \<Rightarrow> key outcome \<times> firebase" where
  "child childPath fb =
     (if childPath = [] then (Throw (Error (''bad child path '' @ currentPath fb)), fb)
      else (Return childPath,
            if childPath \<in> set (children fb) then fb
            else fb\<lparr>children := children fb @ [childPath]\<rparr>))"

definition digit :: "nat \<Rightarrow> char" where
  "digit n = ''0123456789'' ! (n mod 10)"

fun string_of_nat :: "nat \<Rightarrow> string" where
  "string_of_nat n =
     (if n < 10 then [digit n] else string_of_nat (n div 10) @ [digit (n mod 10)])"

declare string_of_nat.simps [simp del]

fun truthy :: "jsval \<Rightarrow> bool" where
  "truthy JUndefined = False"
| "truthy JNull = False"
| "truthy (JBool b) = b"
| "truthy (JNum n) = (n \<noteq> 0)"
| "truthy (JStr s) = (s \<noteq> [])"
| "truthy (JRef a) = True"

text \<open>
  \<^verbatim>\<open>set\<close> on the child reference \<open>k\<close>, as far as the reference receives the
  call: \<open>ops\<close> lists the writes received. The queue of MockFirebase and its flush are
  \<open>mock_set\<close> and \<open>defer_op\<close> below.
\<close>

definition fb_set :: "key \<Rightarrow> jsval \<Rightarrow> completion option \<Rightarrow> firebase \<Rightarrow> firebase" where
  "fb_set k data callback fb = fb\<lparr>ops := ops fb @ [Write k (SetOp data) callback]\<rparr>"

text \<open>
  \<^verbatim>\<open>update\<close> on the child reference \<open>k\<close>: the argument is checked first, then the
  call is received; the rest is \<open>mock_update\<close> below.
\<close>

definition fb_update ::
  "key \<Rightarrow> jsval \<Rightarrow> completion option \<Rightarrow> firebase \<Rightarrow> unit outcome \<times> firebase" where
  "fb_update k changes callback fb =
     (if \<not> isObject changes then
        (Throw (Error ''First argument must be an object when calling $update''), fb)
      else (Return (), fb\<lparr>ops := ops fb @ [Write k (UpdateOp changes) callback]\<rparr>))"

text \<open>
  \<^verbatim>\<open>setPriority\<close> and \<^verbatim>\<open>remove\<close> on the child reference \<open>k\<close>, as far as the
  reference receives the call, with the completion callback the array passes. What
  MockFirebase does with the call before it returns is \<open>mock_setPriority\<close> and
  \<open>mock_remove\<close> below.
\<close>

definition fb_setPriority :: "key \<Rightarrow> jsval \<Rightarrow> firebase \<Rightarrow> firebase" where
  "fb_setPriority k newPriority fb =
     fb\<lparr>ops := ops fb @ [Write k (SetPriorityOp newPriority) None]\<rparr>"

definition fb_remove :: "key \<Rightarrow> completion option \<Rightarrow> firebase \<Rightarrow> firebase" where
  "fb_remove k callback fb = fb\<lparr>ops := ops fb @ [Write k RemoveOp callback]\<rparr>"

definition push :: "jsval \<Rightarrow> firebase \<Rightarrow> key outcome \<times> firebase" where
  "push data fb =
     (let n = push_counter fb + 1;
          fb1 = fb\<lparr>push_counter := n\<rparr>
      in case child (''mock'' @ string_of_nat n) fb1 of
           (Throw e, fb2) \<Rightarrow> (Throw e, fb2)
         | (Return k, fb2) \<Rightarrow>
             (if truthy data then (Return k, fb_set k data None fb2) else (Return k, fb2)))"

subsection \<open>Lookup\<close>

definition posByKey :: "sync_array \<Rightarrow> key \<Rightarrow> int" where
  "posByKey st k = indexOf (ids st) k"

definition keyForPos :: "sync_array \<Rightarrow> int \<Rightarrow> jsval" where
  "keyForPos st pos =
     (if 0 \<le> pos \<and> pos < int (length (ids st)) then JStr (ids st ! nat pos) else JUndefined)"

subsection \<open>Notifications\<close>

text \<open>\<^verbatim>\<open>this.eventCallback && this.eventCallback(eventType, recordId, data)\<close>\<close>

definition handleEvent :: "event_kind \<Rightarrow> jsval \<Rightarrow> jsval \<Rightarrow> sync_array \<Rightarrow> sync_array" where
  "handleEvent eventType recordId data st =
     (if eventCallback st then st\<lparr>calls := calls st @ [(eventType, recordId, data)]\<rparr> else st)"

text \<open>
  \<^verbatim>\<open>_handleErrors\<close> runs with the \<^verbatim>\<open>this\<close> it was bound to. Bound to \<^verbatim>\<open>null\<close>,
  \<^verbatim>\<open>this._handleEvent\<close> is not a function and the call throws.
\<close>

definition handleErrors ::
  "this_binding \<Rightarrow> key \<Rightarrow> js_error option \<Rightarrow> sync_array \<Rightarrow> unit outcome \<times> sync_array" where
  "handleErrors this k err st =
     (case err of
        None \<Rightarrow> (Return (), st)
      | Some e \<Rightarrow>
          (case this of
             BoundNull \<Rightarrow> (Throw (TypeError ''this._handleEvent is not a function''), st)
           | BoundThis \<Rightarrow>
               (let st1 = handleEvent error JNull (JStr k) st
                in (Return (), st1\<lparr>console := console st1 @ [e]\<rparr>))))"

text \<open>
  The reference finishes a write and calls its completion callback, if it was given one,
  with the error or \<^verbatim>\<open>null\<close>.
\<close>

fun complete :: "ref_write \<Rightarrow> js_error option \<Rightarrow> sync_array \<Rightarrow> unit outcome \<times> sync_array" where
  "complete (Write k w None) err st = (Return (), st)"
| "complete (Write k w (Some (HandleErrors this k'))) err st = handleErrors this k' err st"

subsection \<open>The write methods\<close>

definition add :: "jsval list \<Rightarrow> sync_array \<Rightarrow> key outcome \<times> sync_array" where
  "add arguments st =
     (case push JUndefined (ref st) of
        (Throw e, fb1) \<Rightarrow> (Throw e, st\<lparr>ref := fb1\<rparr>)
      | (Return k, fb1) \<Rightarrow>
          (case child k fb1 of
             (Throw e, fb2) \<Rightarrow> (Throw e, st\<lparr>ref := fb2\<rparr>)
           | (Return r, fb2) \<Rightarrow>
               (if length arguments > 0 then
                  (Return r,
                   st\<lparr>ref := fb_set r (at_index arguments 0) (Some (HandleErrors BoundThis k)) fb2\<rparr>)
                else (Return r, st\<lparr>ref := fb2\<rparr>))))"

definition set_value :: "key \<Rightarrow> jsval \<Rightarrow> sync_array \<Rightarrow> unit outcome \<times> sync_array" where
  "set_value k newValue st =
     (case child k (ref st) of
        (Throw e, fb1) \<Rightarrow> (Throw e, st\<lparr>ref := fb1\<rparr>)
      | (Return r, fb1) \<Rightarrow>
          (Return (), st\<lparr>ref := fb_set r newValue (Some (HandleErrors BoundThis k)) fb1\<rparr>))"

definition update :: "key \<Rightarrow> jsval \<Rightarrow> sync_array \<Rightarrow> unit outcome \<times> sync_array" where
  "update k newValue st =
     (case child k (ref st) of
        (Throw e, fb1) \<Rightarrow> (Throw e, st\<lparr>ref := fb1\<rparr>)
      | (Return r, fb1) \<Rightarrow>
          (case fb_update r newValue (Some (HandleErrors BoundThis k)) fb1 of
             (res, fb2) \<Rightarrow> (res, st\<lparr>ref := fb2\<rparr>)))"

definition setPriority :: "key \<Rightarrow> jsval \<Rightarrow> sync_array \<Rightarrow> unit outcome \<times> sync_array" where
  "setPriority k newPriority st =
     (case child k (ref st) of
        (Throw e, fb1) \<Rightarrow> (Throw e, st\<lparr>ref := fb1\<rparr>)
      | (Return r, fb1) \<Rightarrow> (Return (), st\<lparr>ref := fb_setPriority r newPriority fb1\<rparr>))"

definition remove :: "key \<Rightarrow> sync_array \<Rightarrow> unit outcome \<times> sync_array" where
  "remove k st =
     (case child k (ref st) of
        (Throw e, fb1) \<Rightarrow> (Throw e, st\<lparr>ref := fb1\<rparr>)
      | (Return r, fb1) \<Rightarrow>
          (Return (), st\<lparr>ref := fb_remove r (Some (HandleErrors BoundNull k)) fb1\<rparr>))"

subsection \<open>Merging a changed record into the stored one\<close>

text \<open>
  \<^verbatim>\<open>applyToBase\<close> keeps the stored object and rewrites its fields: the first loop
  deletes the fields of \<open>base\<close> that \<open>data\<close> lacks, the second assigns every field of
  \<open>data\<close>. Both read the store as it is at that step.
\<close>

fun delete_loop :: "addr \<Rightarrow> addr \<Rightarrow> string list \<Rightarrow> store \<Rightarrow> unit outcome \<times> store" where
  "delete_loop a b [] h = (Return (), h)"
| "delete_loop a b (k # ks) h =
     (case hasOwnProperty (h a) k of
        Throw e \<Rightarrow> (Throw e, h)
      | Return inBase \<Rightarrow>
          (if \<not> inBase then delete_loop a b ks h
           else
             (case hasOwnProperty (h b) k of
                Throw e \<Rightarrow> (Throw e, h)
              | Return inData \<Rightarrow>
                  delete_loop a b ks
                    (if \<not> inData then h(a := AList.delete k (h a)) else h))))"

fun assign_loop :: "addr \<Rightarrow> addr \<Rightarrow> string list \<Rightarrow> store \<Rightarrow> unit outcome \<times> store" where
  "assign_loop a b [] h = (Return (), h)"
| "assign_loop a b (k # ks) h =
     (case hasOwnProperty (h b) k of
        Throw e \<Rightarrow> (Throw e, h)
      | Return inData \<Rightarrow>
          assign_loop a b ks
            (if inData then h(a := AList.update k (get_prop (h b) k) (h a)) else h))"

fun applyToBase :: "jsval \<Rightarrow> jsval \<Rightarrow> store \<Rightarrow> jsval outcome \<times> store" where
  "applyToBase (JRef a) (JRef b) h =
     (case delete_loop a b (own_keys (h a)) h of
        (Throw e, h1) \<Rightarrow> (Throw e, h1)
      | (Return u, h1) \<Rightarrow>
          (case assign_loop a b (own_keys (h1 b)) h1 of
             (Throw e, h2) \<Rightarrow> (Throw e, h2)
           | (Return u', h2) \<Rightarrow> (Return (JRef a), h2)))"
| "applyToBase base data h = (Return data, h)"

subsection \<open>Applying server events\<close>

definition moveTo :: "key \<Rightarrow> jsval \<Rightarrow> jsval \<Rightarrow> sync_array \<Rightarrow> sync_array" where
  "moveTo rid data prevId st =
     (if prevId = JNull then
        st\<lparr>ids := rid # ids st, list_arr := data # list_arr st\<rparr>
      else
        (let pos0 = posByKey st rid;
             pos = (if pos0 = - 1 then int (length (list_arr st)) else pos0 + 1)
         in st\<lparr>ids := splice (ids st) pos 0 [rid],
                list_arr := splice (list_arr st) pos 0 [data]\<rparr>))"

definition serverAdd :: "snapshot \<Rightarrow> jsval \<Rightarrow> sync_array \<Rightarrow> sync_array" where
  "serverAdd snap prevId st =
     handleEvent child_added (JStr (name snap)) (val snap)
       (moveTo (name snap) (val snap) prevId st)"

definition serverRemove :: "snapshot \<Rightarrow> sync_array \<Rightarrow> sync_array" where
  "serverRemove snap st =
     (let pos = posByKey st (name snap)
      in if pos \<noteq> - 1 then
           (let st1 = st\<lparr>list_arr := splice (list_arr st) pos 1 []\<rparr>;
                st2 = st1\<lparr>ids := splice (ids st1) pos 1 []\<rparr>
            in handleEvent child_removed (JStr (name snap)) (at_index (list_arr st2) pos) st2)
         else st)"

text \<open>
  An exception of \<^verbatim>\<open>applyToBase\<close> leaves \<^verbatim>\<open>_serverChange\<close> before the assignment
  to \<^verbatim>\<open>this.list[pos]\<close> and before the notification.
\<close>

definition serverChange :: "snapshot \<Rightarrow> sync_array \<Rightarrow> unit outcome \<times> sync_array" where
  "serverChange snap st =
     (let pos = posByKey st (name snap)
      in if pos \<noteq> - 1 then
           (case applyToBase (at_index (list_arr st) pos) (val snap) (store st) of
              (Throw e, h) \<Rightarrow> (Throw e, st\<lparr>store := h\<rparr>)
            | (Return r, h) \<Rightarrow>
                (let st1 = st\<lparr>store := h, list_arr := set_index (list_arr st) pos r\<rparr>
                 in (Return (),
                     handleEvent child_changed (JStr (name snap))
                       (at_index (list_arr st1) pos) st1)))
         else (Return (), st))"

definition serverMove :: "snapshot \<Rightarrow> jsval \<Rightarrow> sync_array \<Rightarrow> sync_array" where
  "serverMove snap prevId st =
     (let rid = name snap;
          oldPos = posByKey st rid
      in if oldPos \<noteq> - 1 then
           (let data = at_index (list_arr st) oldPos;
                st1 = st\<lparr>list_arr := splice (list_arr st) oldPos 1 []\<rparr>;
                st2 = st1\<lparr>ids := splice (ids st1) oldPos 1 []\<rparr>;
                st3 = moveTo rid data prevId st2
            in handleEvent child_moved (JStr (name snap)) data st3)
         else st)"

subsection \<open>Construction and the attached functions\<close>

definition initList :: "sync_array \<Rightarrow> sync_array" where
  "initList st =
     st\<lparr>props := props st @
       [(''$keyFor'', M_keyFor), (''$indexOf'', M_indexOf), (''$add'', M_add),
        (''$remove'', M_remove), (''$set'', M_set), (''$update'', M_update),
        (''$move'', M_move)]\<rparr>"

definition initListeners :: "sync_array \<Rightarrow> sync_array" where
  "initListeners st =
     st\<lparr>listeners := listeners st @ [child_added, child_removed, child_changed, child_moved]\<rparr>"

definition ReadOnlySynchronizedArray :: "firebase \<Rightarrow> bool \<Rightarrow> store \<Rightarrow> sync_array" where
  "ReadOnlySynchronizedArray r cb h =
     initListeners (initList
       \<lparr>ids = [], list_arr = [], ref = r, eventCallback = cb, props = [], listeners = [],
        store = h, calls = [], console = []\<rparr>)"

text \<open>A call of one of the functions attached to the list, with its arguments.\<close>

datatype api_call =
    KeyFor int
  | IndexOf key
  | Add "jsval list"
  | Remove key
  | Set key jsval
  | Update key jsval
  | Move key jsval

fun method_of :: "api_call \<Rightarrow> api_method" where
  "method_of (KeyFor pos) = M_keyFor"
| "method_of (IndexOf k) = M_indexOf"
| "method_of (Add arguments) = M_add"
| "method_of (Remove k) = M_remove"
| "method_of (Set k v) = M_set"
| "method_of (Update k v) = M_update"
| "method_of (Move k p) = M_move"

definition returning :: "jsval \<Rightarrow> unit outcome \<times> sync_array \<Rightarrow> jsval outcome \<times> sync_array" where
  "returning v r = (case r of (Return u, st) \<Rightarrow> (Return v, st) | (Throw e, st) \<Rightarrow> (Throw e, st))"

fun invoke :: "api_call \<Rightarrow> sync_array \<Rightarrow> jsval outcome \<times> sync_array" where
  "invoke (KeyFor pos) st = (Return (keyForPos st pos), st)"
| "invoke (IndexOf k) st = (Return (JNum (posByKey st k)), st)"
| "invoke (Add arguments) st =
     (case add arguments st of
        (Return k, st1) \<Rightarrow> (Return (JStr k), st1)
      | (Throw e, st1) \<Rightarrow> (Throw e, st1))"
| "invoke (Remove k) st = returning JUndefined (remove k st)"
| "invoke (Set k v) st = returning JUndefined (set_value k v st)"
| "invoke (Update k v) st = returning JUndefined (update k v st)"
| "invoke (Move k p) st = returning JUndefined (setPriority k p st)"

subsection \<open>Delivery of server events\<close>

datatype remote_event =
    Added snapshot jsval
  | Removed snapshot
  | Changed snapshot
  | Moved snapshot jsval

fun kind_of :: "remote_event \<Rightarrow> event_kind" where
  "kind_of (Added snap prevId) = child_added"
| "kind_of (Removed snap) = child_removed"
| "kind_of (Changed snap) = child_changed"
| "kind_of (Moved snap prevId) = child_moved"

fun apply_event :: "remote_event \<Rightarrow> sync_array \<Rightarrow> unit outcome \<times> sync_array" where
  "apply_event (Added snap prevId) st = (Return (), serverAdd snap prevId st)"
| "apply_event (Removed snap) st = (Return (), serverRemove snap st)"
| "apply_event (Changed snap) st = serverChange snap st"
| "apply_event (Moved snap prevId) st = (Return (), serverMove snap prevId st)"

text \<open>
  The reference calls every listener registered for the kind of the event, in the order
  of registration; an exception of a listener ends the delivery. Later events are
  delivered to the array as the earlier ones left it.
\<close>

fun call_listeners ::
  "event_kind list \<Rightarrow> remote_event \<Rightarrow> sync_array \<Rightarrow> unit outcome \<times> sync_array" where
  "call_listeners [] ev st = (Return (), st)"
| "call_listeners (k # ks) ev st =
     (if k = kind_of ev then
        (case apply_event ev st of
           (Throw e, st1) \<Rightarrow> (Throw e, st1)
         | (Return u, st1) \<Rightarrow> call_listeners ks ev st1)
      else call_listeners ks ev st)"

definition trigger :: "remote_event \<Rightarrow> sync_array \<Rightarrow> unit outcome \<times> sync_array" where
  "trigger ev st = call_listeners (listeners st) ev st"

fun run :: "remote_event list \<Rightarrow> sync_array \<Rightarrow> sync_array" where
  "run [] st = st"
| "run (ev # evs) st = run evs (snd (trigger ev st))"

subsection \<open>The MockFirebase reference\<close>

text \<open>
  The write methods above end where the reference has received the call. This section
  follows what the reference of the repository, \<^verbatim>\<open>src/test/lib/MockFirebase.js\<close>, does
  with it before the call returns: \<^verbatim>\<open>set\<close> and \<^verbatim>\<open>update\<close> queue an operation on
  the child reference and flush the queue at once when \<^verbatim>\<open>flushDelay\<close> says so,
  \<^verbatim>\<open>remove\<close> and \<^verbatim>\<open>setPriority\<close> change the data at once, and every change of a
  child is reported to the listeners of the parent, which are the handlers of the array.

  The data of the reference is a tree of values. Of the reference itself the model keeps
  its data, its \<^verbatim>\<open>flushDelay\<close> and its child references, each with data, priority,
  pending errors, queue and \<^verbatim>\<open>flushDelay\<close>. Left out: the order of the child
  references, which only a flush of the parent reads; \<^verbatim>\<open>value\<close> events, for which the
  array registers no listener; child references of child references; and the bookkeeping
  of the ancestors of the reference, which hold no listener of the array.
\<close>

datatype json =
    JsonUndefined
  | JsonNull
  | JsonBool bool
  | JsonNum int
  | JsonStr string
  | JsonObj "(string \<times> json) list"


text \<open>
  \<^verbatim>\<open>_.cloneDeep\<close> of a tree into the heap of the program: every object of the tree
  becomes a new object at the next free address.
\<close>

fun makeVal :: "json \<Rightarrow> addr \<times> store \<Rightarrow> jsval \<times> addr \<times> store"
  and makeFields :: "(string \<times> json) list \<Rightarrow> addr \<times> store \<Rightarrow> obj \<times> addr \<times> store" where
  "makeVal JsonUndefined s = (JUndefined, s)"
| "makeVal JsonNull s = (JNull, s)"
| "makeVal (JsonBool b) s = (JBool b, s)"
| "makeVal (JsonNum n) s = (JNum n, s)"
| "makeVal (JsonStr t) s = (JStr t, s)"
| "makeVal (JsonObj fs) (n, h) =
     (case makeFields fs (Suc n, h) of
        (ob, n', h') \<Rightarrow> (JRef n, n', h'(n := ob)))"
| "makeFields [] s = ([], s)"
| "makeFields ((k, v) # fs) s =
     (case makeVal v s of
        (jv, s') \<Rightarrow> (case makeFields fs s' of (ob, s'') \<Rightarrow> ((k, jv) # ob, s'')))"

fun json_truthy :: "json \<Rightarrow> bool" where
  "json_truthy JsonUndefined = False"
| "json_truthy JsonNull = False"
| "json_truthy (JsonBool b) = b"
| "json_truthy (JsonNum n) = (n \<noteq> 0)"
| "json_truthy (JsonStr t) = (t \<noteq> [])"
| "json_truthy (JsonObj fs) = True"


datatype flush_delay = FlushOff | FlushNow | FlushAfter nat

datatype deferred = Deferred json "js_error option" "completion option"

record child_ref =
  c_name :: key
  c_data :: json
  c_priority :: json
  c_errs :: "(string \<times> js_error) list"
  c_ops :: "deferred list"
  c_flushDelay :: flush_delay

text \<open>
  \<open>arr\<close> is the array together with the calls its reference has received; \<open>next_addr\<close>
  is the next free address of the heap and \<open>timers\<close> holds the queues handed to
  \<^verbatim>\<open>setTimeout\<close> by a flush with a numeric delay.
\<close>

record mock_world =
  arr :: sync_array
  fb_data :: json
  flushDelay :: flush_delay
  child_refs :: "child_ref list"
  next_addr :: addr
  timers :: "(key \<times> deferred list) list"

definition childData :: "key \<Rightarrow> mock_world \<Rightarrow> json" where
  "childData k w =
     (case fb_data w of
        JsonObj fs \<Rightarrow> (case map_of fs k of Some v \<Rightarrow> v | None \<Rightarrow> JsonNull)
      | j \<Rightarrow> JsonNull)"

text \<open>
  The constructor of a child reference: the data is \<^verbatim>\<open>data||null\<close> of the parent's
  field, the \<^verbatim>\<open>flushDelay\<close> that of the parent.
\<close>

definition new_child :: "key \<Rightarrow> mock_world \<Rightarrow> child_ref" where
  "new_child k w =
     \<lparr>c_name = k,
      c_data = (if json_truthy (childData k w) then childData k w else JsonNull),
      c_priority = JsonNull, c_errs = [], c_ops = [], c_flushDelay = flushDelay w\<rparr>"

definition mock_child :: "key \<Rightarrow> mock_world \<Rightarrow> mock_world" where
  "mock_child k w =
     (if k \<in> set (map c_name (child_refs w)) then w
      else w\<lparr>child_refs := child_refs w @ [new_child k w]\<rparr>)"


definition map_child :: "key \<Rightarrow> (child_ref \<Rightarrow> child_ref) \<Rightarrow> mock_world \<Rightarrow> mock_world" where
  "map_child k f w =
     w\<lparr>child_refs := map (\<lambda>c. if c_name c = k then f c else c) (child_refs w)\<rparr>"



























text \<open>
  An event stream in which no \<^verbatim>\<open>child_added\<close> event names a key the array holds at
  the moment the event arrives.
\<close>

fun adds_new_key :: "remote_event \<Rightarrow> sync_array \<Rightarrow> bool" where
  "adds_new_key (Added snap prevId) st = (name snap \<notin> set (ids st))"
| "adds_new_key ev st = True"

fun fresh_adds :: "remote_event list \<Rightarrow> sync_array \<Rightarrow> bool" where
  "fresh_adds [] st = True"
| "fresh_adds (ev # evs) st = (adds_new_key ev st \<and> fresh_adds evs (snd (trigger ev st)))"

subsection \<open>States used in the examples\<close>

text \<open>
  The reference \<^verbatim>\<open>new Firebase().child('data')\<close> of the tests, stores with no object
  and with the object \<^verbatim>\<open>{foo: 'bar'}\<close> at address 0, and an array that received
  \<^verbatim>\<open>a\<close> first and \<^verbatim>\<open>b\<close> after \<^verbatim>\<open>a\<close>.
\<close>

definition mock_data :: firebase where
  "mock_data = \<lparr>currentPath = ''Mock://data'', push_counter = 0, children = [], ops = []\<rparr>"

definition empty_store :: store where
  "empty_store a = []"

definition foo_bar_store :: store where
  "foo_bar_store a = (if a = 0 then [(''foo'', JStr ''bar'')] else [])"

definition two_records :: sync_array where
  "two_records =
     run [Added (Snap ''a'' (JNum 1)) JNull, Added (Snap ''b'' (JNum 2)) (JStr ''a'')]
       (ReadOnlySynchronizedArray mock_data True empty_store)"







section \<open>Properties\<close>

subsection \<open>Arrays\<close>

lemma indexOf_lower: "- 1 \<le> indexOf xs x"
  by (induction xs) (auto simp: Let_def)

lemma indexOf_absent: "indexOf xs x = - 1 \<longleftrightarrow> x \<notin> set xs"
proof (induction xs)
  case Nil
  show ?case by simp
next
  case (Cons y ys)
  have "- 1 \<le> indexOf ys x" by (rule indexOf_lower)
  with Cons show ?case by (auto simp: Let_def)
qed

lemma indexOf_range:
  "x \<in> set xs \<Longrightarrow> 0 \<le> indexOf xs x \<and> indexOf xs x < int (length xs)"
proof (induction xs)
  case Nil
  then show ?case by simp
next
  case (Cons y ys)
  show ?case
  proof (cases "y = x")
    case True
    then show ?thesis by simp
  next
    case False
    with Cons.prems have "x \<in> set ys" by simp
    with Cons.IH have "0 \<le> indexOf ys x \<and> indexOf ys x < int (length ys)" by simp
    with False show ?thesis by (simp add: Let_def)
  qed
qed

lemma indexOf_nth: "x \<in> set xs \<Longrightarrow> xs ! nat (indexOf xs x) = x"
proof (induction xs)
  case Nil
  then show ?case by simp
next
  case (Cons y ys)
  show ?case
  proof (cases "y = x")
    case True
    then show ?thesis by simp
  next
    case False
    with Cons.prems have in_ys: "x \<in> set ys" by simp
    then have "0 \<le> indexOf ys x" using indexOf_range by fastforce
    then have "nat (indexOf ys x + 1) = Suc (nat (indexOf ys x))" by simp
    with False in_ys Cons.IH show ?thesis by (simp add: Let_def)
  qed
qed

lemma splice_append: "splice xs (int (length xs)) 0 ys = xs @ ys"
  by (simp add: splice_def splice_start_def)

lemma splice_delete_one:
  "0 \<le> p \<Longrightarrow> splice xs p (Suc 0) [] = take (nat p) xs @ drop (Suc (nat p)) xs"
  by (simp add: splice_def splice_start_def min_def Let_def)

lemma splice_insert_one:
  "0 \<le> p \<Longrightarrow> splice xs p 0 [x] = take (nat p) xs @ x # drop (nat p) xs"
  by (simp add: splice_def splice_start_def min_def Let_def)

lemma length_splice_insert_one: "0 \<le> p \<Longrightarrow> length (splice xs p 0 [x]) = Suc (length xs)"
  by (simp add: splice_insert_one)

lemma distinct_delete_at: "distinct xs \<Longrightarrow> distinct (take n xs @ drop (Suc n) xs)"
proof -
  assume d: "distinct xs"
  have "set (take n xs) \<inter> set (drop (Suc n) xs) \<subseteq> set (take n xs) \<inter> set (drop n xs)"
    using set_drop_subset_set_drop [of n "Suc n" xs] by auto
  moreover have "set (take n xs) \<inter> set (drop n xs) = {}"
    using d by (metis append_take_drop_id distinct_append)
  ultimately show ?thesis using d by (auto simp: distinct_take distinct_drop)
qed

lemma distinct_snoc: "distinct xs \<Longrightarrow> x \<notin> set xs \<Longrightarrow> distinct (xs @ [x])"
  by simp

lemma removed_after_delete:
  assumes "distinct xs" "x \<in> set xs"
  shows "x \<notin> set (take (nat (indexOf xs x)) xs @ drop (Suc (nat (indexOf xs x))) xs)"
proof -
  let ?n = "nat (indexOf xs x)"
  have lt: "?n < length xs" using indexOf_range [OF assms(2)] by linarith
  have nth: "xs ! ?n = x" by (rule indexOf_nth [OF assms(2)])
  have "xs = take ?n xs @ x # drop (Suc ?n) xs"
    using lt nth by (metis id_take_nth_drop)
  then have "distinct (take ?n xs @ x # drop (Suc ?n) xs)" using assms(1) by simp
  then show ?thesis by auto
qed

subsection \<open>What each step changes\<close>

lemma handleEvent_frame [simp]:
  "ids (handleEvent t k v st) = ids st"
  "list_arr (handleEvent t k v st) = list_arr st"
  "store (handleEvent t k v st) = store st"
  "ref (handleEvent t k v st) = ref st"
  "listeners (handleEvent t k v st) = listeners st"
  "props (handleEvent t k v st) = props st"
  "eventCallback (handleEvent t k v st) = eventCallback st"
  "console (handleEvent t k v st) = console st"
  by (simp_all add: handleEvent_def)

lemma handleEvent_calls:
  "calls (handleEvent t k v st) = calls st @ (if eventCallback st then [(t, k, v)] else [])"
  by (simp add: handleEvent_def)

lemma moveTo_frame [simp]:
  "store (moveTo rid data prevId st) = store st"
  "ref (moveTo rid data prevId st) = ref st"
  "listeners (moveTo rid data prevId st) = listeners st"
  "props (moveTo rid data prevId st) = props st"
  "eventCallback (moveTo rid data prevId st) = eventCallback st"
  "calls (moveTo rid data prevId st) = calls st"
  "console (moveTo rid data prevId st) = console st"
  by (simp_all add: moveTo_def Let_def)

lemma moveTo_head:
  "ids (moveTo rid data JNull st) = rid # ids st"
  "list_arr (moveTo rid data JNull st) = data # list_arr st"
  by (simp_all add: moveTo_def)

lemma moveTo_absent:
  assumes "prevId \<noteq> JNull" "rid \<notin> set (ids st)" "length (ids st) = length (list_arr st)"
  shows "ids (moveTo rid data prevId st) = ids st @ [rid]"
    and "list_arr (moveTo rid data prevId st) = list_arr st @ [data]"
proof -
  have "posByKey st rid = - 1" using assms(2) by (simp add: posByKey_def indexOf_absent)
  then show "ids (moveTo rid data prevId st) = ids st @ [rid]"
    and "list_arr (moveTo rid data prevId st) = list_arr st @ [data]"
    using assms(1) assms(3) splice_append [of "ids st" "[rid]"]
      splice_append [of "list_arr st" "[data]"]
    by (simp_all add: moveTo_def Let_def)
qed

lemma moveTo_present:
  assumes "prevId \<noteq> JNull" "rid \<in> set (ids st)"
  shows "ids (moveTo rid data prevId st) =
           take (nat (posByKey st rid) + 1) (ids st) @ rid # drop (nat (posByKey st rid) + 1) (ids st)"
    and "list_arr (moveTo rid data prevId st) =
           take (nat (posByKey st rid) + 1) (list_arr st) @ data # drop (nat (posByKey st rid) + 1) (list_arr st)"
proof -
  have r: "0 \<le> posByKey st rid" using indexOf_range [OF assms(2)] by (simp add: posByKey_def)
  then have ne: "posByKey st rid \<noteq> - 1" by simp
  have n: "nat (posByKey st rid + 1) = nat (posByKey st rid) + 1" using r by simp
  show "ids (moveTo rid data prevId st) =
           take (nat (posByKey st rid) + 1) (ids st) @ rid # drop (nat (posByKey st rid) + 1) (ids st)"
    using assms(1) ne r n splice_insert_one [of "posByKey st rid + 1" "ids st" rid]
    by (simp add: moveTo_def Let_def)
  show "list_arr (moveTo rid data prevId st) =
           take (nat (posByKey st rid) + 1) (list_arr st) @ data # drop (nat (posByKey st rid) + 1) (list_arr st)"
    using assms(1) ne r n splice_insert_one [of "posByKey st rid + 1" "list_arr st" data]
    by (simp add: moveTo_def Let_def)
qed

lemma length_moveTo:
  "length (ids st) = length (list_arr st) \<Longrightarrow>
   length (ids (moveTo rid data prevId st)) = Suc (length (ids st)) \<and>
   length (list_arr (moveTo rid data prevId st)) = Suc (length (list_arr st))"
proof -
  have "0 \<le> (if posByKey st rid = - 1 then int (length (list_arr st)) else posByKey st rid + 1)"
    using indexOf_lower [of "ids st" rid] by (auto simp: posByKey_def)
  then show ?thesis
    by (simp add: moveTo_def Let_def length_splice_insert_one)
qed

lemma two_records_ids: "ids two_records = [''a'', ''b'']"
  by (simp add: two_records_def ReadOnlySynchronizedArray_def initList_def initListeners_def
      trigger_def serverAdd_def moveTo_def posByKey_def splice_def splice_start_def)

lemma two_records_list: "list_arr two_records = [JNum 1, JNum 2]"
  by (simp add: two_records_def ReadOnlySynchronizedArray_def initList_def initListeners_def
      trigger_def serverAdd_def moveTo_def posByKey_def splice_def splice_start_def)

lemma two_records_callback: "eventCallback two_records"
  by (simp add: two_records_def ReadOnlySynchronizedArray_def initList_def initListeners_def
      trigger_def serverAdd_def moveTo_def posByKey_def splice_def splice_start_def)

lemma at_index_after_delete:
  assumes "0 \<le> p"
  shows "at_index (take (nat p) xs @ drop (Suc (nat p)) xs) p = at_index xs (p + 1)"
proof (cases "p + 1 < int (length xs)")
  case True
  then have lt: "Suc (nat p) < length xs" using assms by linarith
  have len: "length (take (nat p) xs) = nat p" using lt by simp
  have "(take (nat p) xs @ drop (Suc (nat p)) xs) ! nat p = drop (Suc (nat p)) xs ! 0"
    using len by (simp add: nth_append)
  also have "\<dots> = xs ! Suc (nat p)" using lt by simp
  finally have "(take (nat p) xs @ drop (Suc (nat p)) xs) ! nat p = xs ! Suc (nat p)" .
  moreover have "nat (p + 1) = Suc (nat p)" using assms by simp
  moreover have "p < int (length (take (nat p) xs @ drop (Suc (nat p)) xs))"
    using lt assms by simp
  ultimately show ?thesis using True assms by (simp add: at_index_def)
next
  case False
  then have "\<not> p < int (length (take (nat p) xs @ drop (Suc (nat p)) xs))"
    using assms by simp
  with False show ?thesis by (simp add: at_index_def)
qed

lemma serverRemove_present:
  assumes "name snap \<in> set (ids st)"
  shows "serverRemove snap st =
           handleEvent child_removed (JStr (name snap))
             (at_index (list_arr st) (posByKey st (name snap) + 1))
             (st\<lparr>list_arr := take (nat (posByKey st (name snap))) (list_arr st) @
                              drop (Suc (nat (posByKey st (name snap)))) (list_arr st),
                  ids := take (nat (posByKey st (name snap))) (ids st) @
                         drop (Suc (nat (posByKey st (name snap)))) (ids st)\<rparr>)"
proof -
  have r: "0 \<le> posByKey st (name snap)"
    using indexOf_range [OF assms] by (simp add: posByKey_def)
  then have ne: "posByKey st (name snap) \<noteq> - 1" by simp
  show ?thesis
    using ne r by (simp add: serverRemove_def Let_def splice_delete_one at_index_after_delete)
qed

lemma serverRemove_absent: "name snap \<notin> set (ids st) \<Longrightarrow> serverRemove snap st = st"
  by (simp add: serverRemove_def Let_def posByKey_def indexOf_absent)

lemma child_cases:
  obtains (thrown) "k = []" "child k fb = (Throw (Error (''bad child path '' @ currentPath fb)), fb)"
  | (returned) fb1 where "k \<noteq> []" "child k fb = (Return k, fb1)" "ops fb1 = ops fb"
      "push_counter fb1 = push_counter fb"
  by (cases "k = []") (auto simp: child_def)

lemma string_of_nat_nonempty: "string_of_nat n \<noteq> []"
  by (subst string_of_nat.simps) simp

lemma add_touches_ref: "\<exists>fb. snd (add arguments st) = st\<lparr>ref := fb\<rparr>"
  by (auto simp: add_def split: prod.splits outcome.splits)

lemma set_value_touches_ref: "\<exists>fb. snd (set_value k v st) = st\<lparr>ref := fb\<rparr>"
  by (auto simp: set_value_def split: prod.splits outcome.splits)

lemma update_touches_ref: "\<exists>fb. snd (update k v st) = st\<lparr>ref := fb\<rparr>"
  by (auto simp: update_def split: prod.splits outcome.splits)

lemma setPriority_touches_ref: "\<exists>fb. snd (setPriority k p st) = st\<lparr>ref := fb\<rparr>"
  by (auto simp: setPriority_def split: prod.splits outcome.splits)

lemma remove_touches_ref: "\<exists>fb. snd (remove k st) = st\<lparr>ref := fb\<rparr>"
  by (auto simp: remove_def split: prod.splits outcome.splits)

lemma snd_returning [simp]: "snd (returning v r) = snd r"
  by (auto simp: returning_def split: prod.splits outcome.splits)

lemma invoke_touches_ref: "\<exists>fb. snd (invoke c st) = st\<lparr>ref := fb\<rparr>"
proof (cases c)
  case (KeyFor pos)
  have "st = st\<lparr>ref := ref st\<rparr>" by simp
  with KeyFor show ?thesis by (metis invoke.simps(1) snd_conv)
next
  case (IndexOf k)
  have "st = st\<lparr>ref := ref st\<rparr>" by simp
  with IndexOf show ?thesis by (metis invoke.simps(2) snd_conv)
next
  case (Add arguments)
  have "snd (invoke (Add arguments) st) = snd (add arguments st)"
    by (simp split: prod.splits outcome.splits)
  with Add show ?thesis using add_touches_ref by simp
next
  case (Remove k)
  then show ?thesis using remove_touches_ref by simp
next
  case (Set k v)
  then show ?thesis using set_value_touches_ref by simp
next
  case (Update k v)
  then show ?thesis using update_touches_ref by simp
next
  case (Move k p)
  then show ?thesis using setPriority_touches_ref by simp
qed

lemma trigger_all_listeners:
  "listeners st = [child_added, child_removed, child_changed, child_moved] \<Longrightarrow>
   trigger ev st = apply_event ev st"
  by (cases ev) (simp_all add: trigger_def split: prod.splits outcome.splits)

lemma constructed_listeners:
  "listeners (ReadOnlySynchronizedArray r cb h) =
     [child_added, child_removed, child_changed, child_moved]"
  by (simp add: ReadOnlySynchronizedArray_def initList_def initListeners_def)

lemma posByKey_present:
  "k \<in> set (ids st) \<Longrightarrow> 0 \<le> posByKey st k \<and> posByKey st k < int (length (ids st))"
  by (simp add: posByKey_def indexOf_range)

lemma posByKey_absent: "posByKey st k = - 1 \<longleftrightarrow> k \<notin> set (ids st)"
  by (simp add: posByKey_def indexOf_absent)

lemma serverAdd_ids_list:
  "ids (serverAdd snap prevId st) = ids (moveTo (name snap) (val snap) prevId st)"
  "list_arr (serverAdd snap prevId st) = list_arr (moveTo (name snap) (val snap) prevId st)"
  "listeners (serverAdd snap prevId st) = listeners st"
  by (simp_all add: serverAdd_def)

lemma serverRemove_ids_list:
  "ids (serverRemove snap st) =
     (if name snap \<in> set (ids st)
      then take (nat (posByKey st (name snap))) (ids st) @
           drop (Suc (nat (posByKey st (name snap)))) (ids st)
      else ids st)"
  "list_arr (serverRemove snap st) =
     (if name snap \<in> set (ids st)
      then take (nat (posByKey st (name snap))) (list_arr st) @
           drop (Suc (nat (posByKey st (name snap)))) (list_arr st)
      else list_arr st)"
  "listeners (serverRemove snap st) = listeners st"
  by (cases "name snap \<in> set (ids st)"; simp add: serverRemove_present serverRemove_absent)+

lemma serverChange_ids [simp]:
  "ids (snd (serverChange snap st)) = ids st"
  "listeners (snd (serverChange snap st)) = listeners st"
  by (simp_all add: serverChange_def Let_def split: prod.splits outcome.splits)

lemma length_set_index:
  "0 \<le> i \<Longrightarrow> i < int (length xs) \<Longrightarrow> length (set_index xs i v) = length xs"
  by (simp add: set_index_def)

lemma serverChange_length:
  assumes "length (ids st) = length (list_arr st)"
  shows "length (list_arr (snd (serverChange snap st))) = length (list_arr st)"
proof (cases "name snap \<in> set (ids st)")
  case True
  then have "0 \<le> posByKey st (name snap) \<and> posByKey st (name snap) < int (length (list_arr st))"
    using posByKey_present [OF True] assms by simp
  then show ?thesis
    by (simp add: serverChange_def Let_def length_set_index split: prod.splits outcome.splits)
next
  case False
  then show ?thesis by (simp add: serverChange_def Let_def posByKey_absent)
qed

lemma serverMove_absent: "name snap \<notin> set (ids st) \<Longrightarrow> serverMove snap prevId st = st"
  by (simp add: serverMove_def Let_def posByKey_absent)

lemma serverMove_present:
  assumes "name snap \<in> set (ids st)"
  shows "serverMove snap prevId st =
           handleEvent child_moved (JStr (name snap))
             (at_index (list_arr st) (posByKey st (name snap)))
             (moveTo (name snap) (at_index (list_arr st) (posByKey st (name snap))) prevId
                (st\<lparr>list_arr := take (nat (posByKey st (name snap))) (list_arr st) @
                                 drop (Suc (nat (posByKey st (name snap)))) (list_arr st),
                     ids := take (nat (posByKey st (name snap))) (ids st) @
                            drop (Suc (nat (posByKey st (name snap)))) (ids st)\<rparr>))"
proof -
  have r: "0 \<le> posByKey st (name snap)" using posByKey_present [OF assms] by simp
  then have ne: "posByKey st (name snap) \<noteq> - 1" by simp
  show ?thesis using ne r by (simp add: serverMove_def Let_def splice_delete_one)
qed

lemma serverMove_listeners [simp]: "listeners (serverMove snap prevId st) = listeners st"
  by (cases "name snap \<in> set (ids st)") (simp_all add: serverMove_present serverMove_absent)

lemma apply_event_listeners [simp]: "listeners (snd (apply_event ev st)) = listeners st"
  by (cases ev) (simp_all add: serverAdd_ids_list serverRemove_ids_list)

lemma apply_event_lengths:
  assumes "length (ids st) = length (list_arr st)"
  shows "length (ids (snd (apply_event ev st))) =
         length (list_arr (snd (apply_event ev st)))"
proof (cases ev)
  case (Added snap prevId)
  then show ?thesis using length_moveTo [OF assms] assms by (simp add: serverAdd_ids_list)
next
  case (Removed snap)
  then show ?thesis using assms by (simp add: serverRemove_ids_list)
next
  case (Changed snap)
  then show ?thesis using assms serverChange_length [OF assms] by simp
next
  case (Moved snap prevId)
  show ?thesis
  proof (cases "name snap \<in> set (ids st)")
    case True
    let ?p = "nat (posByKey st (name snap))"
    let ?st = "st\<lparr>list_arr := take ?p (list_arr st) @ drop (Suc ?p) (list_arr st),
                   ids := take ?p (ids st) @ drop (Suc ?p) (ids st)\<rparr>"
    let ?data = "at_index (list_arr st) (posByKey st (name snap))"
    have l: "length (ids ?st) = length (list_arr ?st)" using assms by simp
    have m: "length (ids (moveTo (name snap) ?data prevId ?st)) =
             length (list_arr (moveTo (name snap) ?data prevId ?st))"
      using length_moveTo [OF l, of "name snap" ?data prevId] l by linarith
    have "serverMove snap prevId st =
            handleEvent child_moved (JStr (name snap)) ?data (moveTo (name snap) ?data prevId ?st)"
      by (rule serverMove_present [OF True])
    then have "length (ids (serverMove snap prevId st)) = length (list_arr (serverMove snap prevId st))"
      using m by (simp only: handleEvent_frame)
    with Moved show ?thesis by simp
  next
    case False
    with Moved assms show ?thesis by (simp add: serverMove_absent)
  qed
qed

lemma apply_event_distinct:
  assumes len: "length (ids st) = length (list_arr st)"
    and d: "distinct (ids st)" and new: "adds_new_key ev st"
  shows "distinct (ids (snd (apply_event ev st)))"
proof (cases ev)
  case (Added snap prevId)
  with new have absent: "name snap \<notin> set (ids st)" by simp
  show ?thesis
  proof (cases "prevId = JNull")
    case True
    with Added absent d show ?thesis by (simp add: serverAdd_ids_list moveTo_head)
  next
    case False
    from moveTo_absent(1) [OF False absent len] Added absent d show ?thesis
      by (simp add: serverAdd_ids_list)
  qed
next
  case (Removed snap)
  with distinct_delete_at [OF d] d show ?thesis
    by (simp add: serverRemove_ids_list del: distinct_append)
next
  case (Changed snap)
  with d show ?thesis by simp
next
  case (Moved snap prevId)
  show ?thesis
  proof (cases "name snap \<in> set (ids st)")
    case True
    let ?p = "nat (posByKey st (name snap))"
    let ?st = "st\<lparr>list_arr := take ?p (list_arr st) @ drop (Suc ?p) (list_arr st),
                   ids := take ?p (ids st) @ drop (Suc ?p) (ids st)\<rparr>"
    have len': "length (ids ?st) = length (list_arr ?st)" using len by simp
    have d': "distinct (ids ?st)" using distinct_delete_at [OF d] by (simp del: distinct_append)
    have absent: "name snap \<notin> set (ids ?st)"
      using removed_after_delete [OF d True] by (simp add: posByKey_def)
    have "distinct (ids (moveTo (name snap) data prevId ?st))" for data
    proof (cases "prevId = JNull")
      case True
      have e: "ids (moveTo (name snap) data prevId ?st) = name snap # ids ?st"
        unfolding True by (rule moveTo_head(1))
      show ?thesis unfolding e using d' absent by (simp only: distinct.simps simp_thms)
    next
      case False
      have e: "ids (moveTo (name snap) data prevId ?st) = ids ?st @ [name snap]"
        by (rule moveTo_absent(1) [OF False absent len'])
      show ?thesis unfolding e by (rule distinct_snoc [OF d' absent])
    qed
    then have "distinct (ids (handleEvent child_moved (JStr (name snap))
        (at_index (list_arr st) (posByKey st (name snap)))
        (moveTo (name snap) (at_index (list_arr st) (posByKey st (name snap))) prevId ?st)))"
      by (simp only: handleEvent_frame)
    then have "distinct (ids (serverMove snap prevId st))"
      by (simp only: serverMove_present [OF True])
    with Moved show ?thesis by simp
  next
    case False
    with Moved d show ?thesis by (simp add: serverMove_absent)
  qed
qed

lemma run_lengths:
  "listeners st = [child_added, child_removed, child_changed, child_moved] \<Longrightarrow>
   length (ids st) = length (list_arr st) \<Longrightarrow>
   length (ids (run evs st)) = length (list_arr (run evs st))"
proof (induction evs arbitrary: st)
  case Nil
  then show ?case by simp
next
  case (Cons ev evs)
  have t: "trigger ev st = apply_event ev st" using Cons.prems(1) by (rule trigger_all_listeners)
  have "length (ids (run evs (snd (apply_event ev st)))) =
        length (list_arr (run evs (snd (apply_event ev st))))"
    using Cons.prems by (intro Cons.IH) (simp_all add: apply_event_lengths)
  with t show ?case by simp
qed

lemma run_distinct:
  "listeners st = [child_added, child_removed, child_changed, child_moved] \<Longrightarrow>
   length (ids st) = length (list_arr st) \<Longrightarrow> distinct (ids st) \<Longrightarrow> fresh_adds evs st \<Longrightarrow>
   distinct (ids (run evs st))"
proof (induction evs arbitrary: st)
  case Nil
  then show ?case by simp
next
  case (Cons ev evs)
  have t: "trigger ev st = apply_event ev st" using Cons.prems(1) by (rule trigger_all_listeners)
  have "distinct (ids (run evs (snd (apply_event ev st))))"
    using Cons.prems t by (intro Cons.IH) (simp_all add: apply_event_lengths apply_event_distinct)
  with t show ?case by simp
qed

lemma constructed_empty:
  "ids (ReadOnlySynchronizedArray r cb h) = []"
  "list_arr (ReadOnlySynchronizedArray r cb h) = []"
  by (simp_all add: ReadOnlySynchronizedArray_def initList_def initListeners_def)

lemma set_value_failure_reported:
  assumes "k \<noteq> []" and "eventCallback st"
  shows "ops (ref (snd (set_value k v st))) =
           ops (ref st) @ [Write k (SetOp v) (Some (HandleErrors BoundThis k))] \<and>
         calls (snd (complete (Write k (SetOp v) (Some (HandleErrors BoundThis k))) (Some e)
                  (snd (set_value k v st)))) =
           calls st @ [(error, JNull, JStr k)]"
  using assms
  by (cases k "ref st" rule: child_cases)
     (simp_all add: set_value_def fb_set_def handleErrors_def handleEvent_def)

subsection \<open>Merging into a stored object\<close>























subsection \<open>Writes on the MockFirebase reference\<close>


lemma mock_child_frame [simp]:
  "arr (mock_child k w) = arr w"
  "flushDelay (mock_child k w) = flushDelay w"
  by (simp_all add: mock_child_def)



lemma map_child_frame [simp]:
  "arr (map_child k f w) = arr w"
  "flushDelay (map_child k f w) = flushDelay w"
  by (simp_all add: map_child_def)













section \<open>The claims\<close>

text \<open>
  Claim C1. An added event whose previous-sibling key is present at position \<open>p\<close> should
  put the record at position \<open>p + 1\<close>. \<^verbatim>\<open>_moveTo\<close> looks up the position of the
  new key itself, not of the sibling: whenever the sibling argument is not \<^verbatim>\<open>null\<close> and
  the new key is not yet in the array, key and value are appended at the end of both
  sequences, wherever the sibling is. With \<^verbatim>\<open>a\<close> at position 0 and \<^verbatim>\<open>b\<close> at
  position 1, adding \<^verbatim>\<open>c\<close> after \<^verbatim>\<open>a\<close> gives \<^verbatim>\<open>a, b, c\<close>.
\<close>

theorem serverAdd_appends_whatever_prevId:
  assumes "prevId \<noteq> JNull" and "name snap \<notin> set (ids st)"
    and "length (ids st) = length (list_arr st)"
  shows "ids (serverAdd snap prevId st) = ids st @ [name snap] \<and>
         list_arr (serverAdd snap prevId st) = list_arr st @ [val snap]"
  using moveTo_absent [OF assms] by (simp add: serverAdd_def)

theorem serverAdd_after_first_lands_last:
  "posByKey two_records ''a'' = 0 \<and>
   ids (serverAdd (Snap ''c'' (JNum 3)) (JStr ''a'') two_records) = [''a'', ''b'', ''c''] \<and>
   list_arr (serverAdd (Snap ''c'' (JNum 3)) (JStr ''a'') two_records) = [JNum 1, JNum 2, JNum 3]"
  using serverAdd_appends_whatever_prevId [of "JStr ''a''" "Snap ''c'' (JNum 3)" two_records]
  by (simp add: two_records_ids two_records_list posByKey_def)

text \<open>
  Claim C2, amended. In every state reached from a new array by server events, the key
  sequence and the value sequence have the same length; the key sequence has no duplicates
  provided no added event names a key that is present when the event arrives.
\<close>

theorem reachable_lengths_equal_and_fresh_adds_distinct:
  "length (ids (run evs (ReadOnlySynchronizedArray r cb h))) =
     length (list_arr (run evs (ReadOnlySynchronizedArray r cb h))) \<and>
   (fresh_adds evs (ReadOnlySynchronizedArray r cb h) \<longrightarrow>
      distinct (ids (run evs (ReadOnlySynchronizedArray r cb h))))"
  using run_lengths [of "ReadOnlySynchronizedArray r cb h" evs]
    run_distinct [of "ReadOnlySynchronizedArray r cb h" evs]
  by (simp add: constructed_listeners constructed_empty)

theorem added_moved_removed_stay_distinct:
  "fresh_adds [Added (Snap ''a'' (JNum 1)) JNull, Added (Snap ''b'' (JNum 2)) (JStr ''a''),
               Moved (Snap ''a'' JNull) (JStr ''b''), Removed (Snap ''b'' JNull)]
     (ReadOnlySynchronizedArray mock_data True empty_store) \<and>
   distinct (ids (run [Added (Snap ''a'' (JNum 1)) JNull, Added (Snap ''b'' (JNum 2)) (JStr ''a''),
                       Moved (Snap ''a'' JNull) (JStr ''b''), Removed (Snap ''b'' JNull)]
     (ReadOnlySynchronizedArray mock_data True empty_store)))"
proof -
  have f: "fresh_adds [Added (Snap ''a'' (JNum 1)) JNull, Added (Snap ''b'' (JNum 2)) (JStr ''a''),
               Moved (Snap ''a'' JNull) (JStr ''b''), Removed (Snap ''b'' JNull)]
     (ReadOnlySynchronizedArray mock_data True empty_store)"
    by (simp add: ReadOnlySynchronizedArray_def initList_def initListeners_def trigger_def
        serverAdd_def moveTo_def posByKey_def)
  with reachable_lengths_equal_and_fresh_adds_distinct [of
      "[Added (Snap ''a'' (JNum 1)) JNull, Added (Snap ''b'' (JNum 2)) (JStr ''a''),
        Moved (Snap ''a'' JNull) (JStr ''b''), Removed (Snap ''b'' JNull)]"
      mock_data True empty_store]
  show ?thesis by simp
qed

theorem added_twice_duplicates_key:
  "\<not> distinct (ids (run [Added (Snap ''a'' (JNum 1)) JNull, Added (Snap ''a'' (JNum 1)) JNull]
      (ReadOnlySynchronizedArray mock_data True empty_store)))"
  by (simp add: trigger_all_listeners constructed_listeners serverAdd_ids_list moveTo_head
      serverAdd_def)

text \<open>
  Claim C3. A removed event for a key present at position \<open>p\<close> deletes the entry at
  \<open>p\<close> from both sequences and notifies with kind \<^verbatim>\<open>child_removed\<close> and the key.
  The value passed to the callback is read from the list after the deletion: it is the
  value that followed the removed one (\<^verbatim>\<open>undefined\<close> when there is none), not the
  removed value.
\<close>

theorem serverRemove_notifies_following_value:
  assumes "name snap \<in> set (ids st)" and "eventCallback st"
  shows "ids (serverRemove snap st) =
           take (nat (posByKey st (name snap))) (ids st) @
           drop (Suc (nat (posByKey st (name snap)))) (ids st) \<and>
         list_arr (serverRemove snap st) =
           take (nat (posByKey st (name snap))) (list_arr st) @
           drop (Suc (nat (posByKey st (name snap)))) (list_arr st) \<and>
         calls (serverRemove snap st) =
           calls st @ [(child_removed, JStr (name snap),
                        at_index (list_arr st) (posByKey st (name snap) + 1))]"
  using assms by (simp add: serverRemove_present handleEvent_calls)

theorem serverRemove_first_reports_second:
  "ids (serverRemove (Snap ''a'' JNull) two_records) = [''b''] \<and>
   list_arr (serverRemove (Snap ''a'' JNull) two_records) = [JNum 2] \<and>
   last (calls (serverRemove (Snap ''a'' JNull) two_records)) = (child_removed, JStr ''a'', JNum 2)"
  using serverRemove_notifies_following_value [of "Snap ''a'' JNull" two_records]
  by (simp add: two_records_ids two_records_list two_records_callback posByKey_def at_index_def)

text \<open>
  Claim C4. A failed remote write should reach the event callback as an error event tagged
  with the key. The completion callback that \<^verbatim>\<open>remove\<close> hands to the reference is bound
  to \<^verbatim>\<open>null\<close>, so on failure it throws a TypeError and notifies nothing;
  \<^verbatim>\<open>setPriority\<close> hands over no completion callback at all, so its failure is never
  reported.
\<close>

theorem remove_and_setPriority_failures_unreported:
  assumes "k \<noteq> []"
  shows "fst (remove k st) = Return () \<and>
         ops (ref (snd (remove k st))) =
           ops (ref st) @ [Write k RemoveOp (Some (HandleErrors BoundNull k))] \<and>
         complete (Write k RemoveOp (Some (HandleErrors BoundNull k))) (Some e)
             (snd (remove k st)) =
           (Throw (TypeError ''this._handleEvent is not a function''), snd (remove k st)) \<and>
         fst (setPriority k p st) = Return () \<and>
         ops (ref (snd (setPriority k p st))) =
           ops (ref st) @ [Write k (SetPriorityOp p) None] \<and>
         complete (Write k (SetPriorityOp p) None) (Some e) (snd (setPriority k p st)) =
           (Return (), snd (setPriority k p st))"
  using assms
  by (cases k "ref st" rule: child_cases)
     (simp_all add: remove_def setPriority_def fb_remove_def fb_setPriority_def handleErrors_def)

theorem remove_failure_throws_in_callback:
  "fst (remove ''a'' two_records) = Return () \<and>
   last (ops (ref (snd (remove ''a'' two_records)))) =
     Write ''a'' RemoveOp (Some (HandleErrors BoundNull ''a'')) \<and>
   fst (complete (Write ''a'' RemoveOp (Some (HandleErrors BoundNull ''a'')))
          (Some (Error ''PERMISSION_DENIED'')) (snd (remove ''a'' two_records))) =
     Throw (TypeError ''this._handleEvent is not a function'') \<and>
   calls (snd (complete (Write ''a'' RemoveOp (Some (HandleErrors BoundNull ''a'')))
          (Some (Error ''PERMISSION_DENIED'')) (snd (remove ''a'' two_records)))) =
     calls (snd (remove ''a'' two_records))"
  using remove_and_setPriority_failures_unreported [of "''a''" two_records
      "Error ''PERMISSION_DENIED''" JUndefined]
  by simp

text \<open>
  Claim C5. The list should carry a function that releases the four listeners. The functions
  \<^verbatim>\<open>_initList\<close> attaches are \<^verbatim>\<open>$keyFor\<close>, \<^verbatim>\<open>$indexOf\<close>, \<^verbatim>\<open>$add\<close>,
  \<^verbatim>\<open>$remove\<close>, \<^verbatim>\<open>$set\<close>, \<^verbatim>\<open>$update\<close> and \<^verbatim>\<open>$move\<close>; none of them
  changes the registered listeners, so after any call every server event is still applied.
\<close>

theorem no_attached_function_releases_listeners:
  "map fst (props (ReadOnlySynchronizedArray r cb h)) =
     [''$keyFor'', ''$indexOf'', ''$add'', ''$remove'', ''$set'', ''$update'', ''$move''] \<and>
   listeners (ReadOnlySynchronizedArray r cb h) =
     [child_added, child_removed, child_changed, child_moved] \<and>
   listeners (snd (invoke c st)) = listeners st \<and>
   trigger ev (snd (invoke c (ReadOnlySynchronizedArray r cb h))) =
     apply_event ev (snd (invoke c (ReadOnlySynchronizedArray r cb h)))"
proof -
  obtain fb where a: "snd (invoke c st) = st\<lparr>ref := fb\<rparr>" using invoke_touches_ref by blast
  obtain fb' where b: "snd (invoke c (ReadOnlySynchronizedArray r cb h)) =
      (ReadOnlySynchronizedArray r cb h)\<lparr>ref := fb'\<rparr>"
    using invoke_touches_ref by blast
  have p: "map fst (props (ReadOnlySynchronizedArray r cb h)) =
     [''$keyFor'', ''$indexOf'', ''$add'', ''$remove'', ''$set'', ''$update'', ''$move'']"
    by (simp add: ReadOnlySynchronizedArray_def initList_def initListeners_def)
  have t: "trigger ev (snd (invoke c (ReadOnlySynchronizedArray r cb h))) =
     apply_event ev (snd (invoke c (ReadOnlySynchronizedArray r cb h)))"
    by (rule trigger_all_listeners) (simp add: b constructed_listeners)
  show ?thesis using a p t by (simp add: constructed_listeners)
qed

theorem no_off_and_listeners_kept:
  "map_of (props (ReadOnlySynchronizedArray mock_data True empty_store)) ''$off'' = None \<and>
   listeners (snd (invoke (Remove ''a'') (ReadOnlySynchronizedArray mock_data True empty_store))) =
     [child_added, child_removed, child_changed, child_moved]"
  using no_attached_function_releases_listeners [of mock_data True empty_store
      "Remove ''a''" "ReadOnlySynchronizedArray mock_data True empty_store"]
  by (simp add: ReadOnlySynchronizedArray_def initList_def initListeners_def)

text \<open>
  Claim C6. \<^verbatim>\<open>update\<close> with a new value that is not an object throws to the caller at
  call time, and no write is queued on the reference; the two sequences are left alone.
  The error is the argument check of \<^verbatim>\<open>update\<close>, or, for the empty key, the path
  check of \<^verbatim>\<open>child\<close> that comes first.
\<close>

theorem update_rejects_non_object:
  assumes "\<not> isObject newValue"
  shows "fst (update k newValue st) =
           Throw (Error (if k = [] then ''bad child path '' @ currentPath (ref st)
                         else ''First argument must be an object when calling $update'')) \<and>
         ops (ref (snd (update k newValue st))) = ops (ref st) \<and>
         ids (snd (update k newValue st)) = ids st \<and>
         list_arr (snd (update k newValue st)) = list_arr st"
  using assms
  by (cases k "ref st" rule: child_cases) (simp_all add: update_def fb_update_def)

theorem update_rejects_non_object_witness:
  "fst (update ''a'' (JBool True) two_records) =
     Throw (Error ''First argument must be an object when calling $update'') \<and>
   ops (ref (snd (update ''a'' (JBool True) two_records))) = ops (ref two_records)"
  using update_rejects_non_object [of "JBool True" "''a''" two_records] by simp

text \<open>
  Claim C7. \<^verbatim>\<open>add\<close> should create the record under an explicit key when one is given.
  \<^verbatim>\<open>add\<close> reads its first argument only: whatever the arguments are, the key is the one
  \<^verbatim>\<open>push\<close> mints, it is the key returned, and the write, if any, goes to that key.
\<close>

theorem add_always_mints_key:
  "fst (add arguments st) = Return (''mock'' @ string_of_nat (push_counter (ref st) + 1)) \<and>
   ops (ref (snd (add arguments st))) =
     ops (ref st) @
     (if arguments = [] then []
      else [Write (''mock'' @ string_of_nat (push_counter (ref st) + 1))
              (SetOp (at_index arguments 0))
              (Some (HandleErrors BoundThis
                 (''mock'' @ string_of_nat (push_counter (ref st) + 1))))])"
proof -
  let ?k = "''mock'' @ string_of_nat (push_counter (ref st) + 1)"
  let ?fb = "(ref st)\<lparr>push_counter := push_counter (ref st) + 1\<rparr>"
  have ne: "?k \<noteq> []" by simp
  obtain fb1 where c1: "child ?k ?fb = (Return ?k, fb1)" and o1: "ops fb1 = ops ?fb"
    using ne by (cases ?k ?fb rule: child_cases) auto
  obtain fb2 where c2: "child ?k fb1 = (Return ?k, fb2)" and o2: "ops fb2 = ops fb1"
    using ne by (cases ?k fb1 rule: child_cases) auto
  have p: "push JUndefined (ref st) = (Return ?k, fb1)"
    using c1 by (simp add: push_def Let_def)
  show ?thesis
    using p c2 o1 o2 by (simp add: add_def fb_set_def)
qed

theorem add_ignores_custom_id:
  "fst (add [JRef 0, JStr ''foobar''] (ReadOnlySynchronizedArray mock_data True foo_bar_store)) =
     Return ''mock1'' \<and>
   ops (ref (snd (add [JRef 0, JStr ''foobar'']
     (ReadOnlySynchronizedArray mock_data True foo_bar_store)))) =
     [Write ''mock1'' (SetOp (JRef 0)) (Some (HandleErrors BoundThis ''mock1''))]"
  using add_always_mints_key [where arguments = "[JRef 0, JStr ''foobar'']"
      and st = "ReadOnlySynchronizedArray mock_data True foo_bar_store"]
  by (simp add: ReadOnlySynchronizedArray_def initList_def initListeners_def mock_data_def
      string_of_nat.simps [of "Suc 0"] digit_def at_index_def)







text \<open>
  Claim C10. When a failed write is reported through the event callback, the callback is
  invoked with the event type \<^verbatim>\<open>error\<close>, with \<^verbatim>\<open>null\<close> as record id and with the
  key of the record as data.
\<close>

theorem handleErrors_notification:
  assumes "eventCallback st"
  shows "handleErrors BoundThis k (Some e) st =
           (Return (), st\<lparr>calls := calls st @ [(error, JNull, JStr k)],
                          console := console st @ [e]\<rparr>)"
  using assms by (simp add: handleErrors_def handleEvent_def)

theorem handleErrors_notification_witness:
  "calls (snd (handleErrors BoundThis ''a'' (Some (Error ''PERMISSION_DENIED'')) two_records)) =
     calls two_records @ [(error, JNull, JStr ''a'')]"
  using handleErrors_notification [of two_records "''a''" "Error ''PERMISSION_DENIED''"]
  by (simp add: two_records_callback)

end
